theory Spec2Isabelle
  imports Main "HOL-Library.Word" "HOL-Library.Multiset"
begin

section \<open>The multipath connection of conn.go\<close>

text \<open>
  A shallow embedding of \<^verbatim>\<open>conn.go\<close>: the connection \<^verbatim>\<open>mpConn\<close>, its write path
  (\<^verbatim>\<open>Write\<close>, \<^verbatim>\<open>sortedSubflows\<close>), the subflow set (\<^verbatim>\<open>remove\<close>, \<^verbatim>\<open>close\<close>) and the
  retransmission engine (\<^verbatim>\<open>retransmit\<close>, \<^verbatim>\<open>retransmitLoop\<close>, \<^verbatim>\<open>isPendingAck\<close>).

  Go pointers are addresses into two stores: \<^verbatim>\<open>*subflow\<close> into a store of subflows,
  \<^verbatim>\<open>*sendFrame\<close> into a store of frames. The connection holds addresses, as the Go
  struct holds pointers, so a frame that sits in a queue and in the pending map is one
  object. An execution is sequential: every function runs from its call to its return, or
  to the point where its goroutine parks on a channel.
\<close>

subsection \<open>Data\<close>

type_synonym addr = nat
type_synonym uint64 = "64 word"
type_synonym uint32 = "32 word"
type_synonym bytes = "8 word list"
type_synonym duration = int
type_synonym instant = int

datatype error = ErrClosed

text \<open>
  Modelled from the spec: the declaration of \<^verbatim>\<open>sendFrame\<close> is not in conn.go. The spec's
  Frame is \<^verbatim>\<open>{frameNumber: uint64, payload, retransmissionCount: uint32,
  beingRetransmitted}\<close>; conn.go reads and writes \<^verbatim>\<open>fn\<close>, \<^verbatim>\<open>retransmissions\<close> and
  \<^verbatim>\<open>beingRetransmitted\<close> (through \<^verbatim>\<open>atomic.LoadUint64\<close>, so a uint64) and calls
  \<^verbatim>\<open>release()\<close>, which is recorded in the field \<open>released\<close>.
\<close>

record sendFrame =
  fn :: uint64
  buf :: bytes
  retransmissions :: uint32
  beingRetransmitted :: uint64
  released :: bool

text \<open>
  Modelled from the spec: the declaration of \<^verbatim>\<open>subflow\<close> is not in conn.go. conn.go uses
  the channel \<^verbatim>\<open>sendQueue\<close> (here its buffered frames, oldest first, and its capacity),
  the channel \<^verbatim>\<open>chClose\<close> (here whether it has been closed, so that a receive from it is
  ready), and the current values of \<^verbatim>\<open>getRTT()\<close> and \<^verbatim>\<open>retransTimer()\<close>.
\<close>

record subflow =
  sendQueue :: "addr list"
  sendQueueCap :: nat
  chClose :: bool
  getRTT :: duration
  retransTimer :: duration

text \<open>
  Modelled from the spec: the declaration of \<^verbatim>\<open>pendingAck\<close> is not in conn.go. The spec's
  PendingAck is \<^verbatim>\<open>{frameNumber, sentAt, outboundSubflow, frame}\<close>; conn.go reads the
  fields \<^verbatim>\<open>fn\<close>, \<^verbatim>\<open>sentAt\<close>, \<^verbatim>\<open>outboundSf\<close> and \<^verbatim>\<open>framePtr\<close>.
\<close>

record pendingAck =
  fn :: uint64
  sentAt :: instant
  outboundSf :: addr
  framePtr :: addr

text \<open>
  \<^verbatim>\<open>mpConn\<close>, lines 11-22. The receive queue is not in conn.go; of it the model keeps
  whether \<^verbatim>\<open>recvQueue.close()\<close> has been called. \<^verbatim>\<open>tryRetransmit\<close> is a channel of
  capacity 1, here the tokens it buffers. The two mutexes have no sequential content.
\<close>

record mpConn =
  cid :: nat
  lastFN :: uint64
  subflows :: "addr list"
  recvQueueClosed :: bool
  closed :: uint32
  tryRetransmit :: "bool list"
  pendingAckMap :: "uint64 \<rightharpoonup> pendingAck"

text \<open>
  The state a call runs in: the connection \<open>bc\<close>, the two stores, and the next free
  frame address (what Go's allocator hands to \<^verbatim>\<open>composeFrame\<close>).
\<close>

record world =
  bc :: mpConn
  sfHeap :: "addr \<Rightarrow> subflow"
  frameHeap :: "addr \<Rightarrow> sendFrame"
  nextFrame :: addr

subsection \<open>newMPConn\<close>

text \<open>
  \<^verbatim>\<open>newMPConn\<close>, lines 24-32. The constant \<^verbatim>\<open>minFrameNumber\<close> is declared outside conn.go:
  it is a parameter of every function that reads it. \<^verbatim>\<open>minFrameNumber - 1\<close> is uint64
  arithmetic.
\<close>

definition newMPConn :: "uint64 \<Rightarrow> nat \<Rightarrow> mpConn" where
  "newMPConn minFrameNumber c =
     \<lparr>cid = c, lastFN = minFrameNumber - 1, subflows = [], recvQueueClosed = False,
      closed = 0, tryRetransmit = [], pendingAckMap = Map.empty\<rparr>"

subsection \<open>sortedSubflows\<close>

text \<open>
  \<^verbatim>\<open>sortedSubflows\<close>, lines 150-159: a copy of the subflow slice, sorted by
  \<^verbatim>\<open>getRTT()\<close> ascending. \<^verbatim>\<open>sort.Slice\<close> promises no order among subflows of equal RTT;
  \<open>sort_key\<close> keeps them in slice order, which is what the code returns when the RTTs
  are pairwise distinct. \<open>sortedSnapshot\<close> below says what a call may return in general.
\<close>

definition sortedSubflows :: "world \<Rightarrow> addr list" where
  "sortedSubflows w = sort_key (\<lambda>sf. getRTT (sfHeap w sf)) (subflows (bc w))"

subsection \<open>Write\<close>

text \<open>
  Modelled from the spec: \<^verbatim>\<open>composeFrame\<close> is not in conn.go. It allocates a frame that
  carries the frame number and the payload, not yet retransmitted and not released.
\<close>

definition composeFrame :: "world \<Rightarrow> uint64 \<Rightarrow> bytes \<Rightarrow> addr \<times> world" where
  "composeFrame w n b =
     (nextFrame w,
      w\<lparr>frameHeap := (frameHeap w)(nextFrame w :=
           \<lparr>sendFrame.fn = n, buf = b, retransmissions = 0, beingRetransmitted = 0,
            released = False\<rparr>),
        nextFrame := Suc (nextFrame w)\<rparr>)"

text \<open>
  A send on \<^verbatim>\<open>sf.sendQueue\<close> can proceed when the channel's buffer is not full. For a
  buffered channel (capacity at least 1) this is exactly when a Go send goes through: a
  receiver cannot be waiting on a full buffer. An unbuffered channel (capacity 0) has no
  buffer to fill; its sends, which go through when a receiver waits, are not modelled.
\<close>

definition hasSpace :: "subflow \<Rightarrow> bool" where
  "hasSpace s = (length (sendQueue s) < sendQueueCap s)"

definition enqueue :: "world \<Rightarrow> addr \<Rightarrow> addr \<Rightarrow> world" where
  "enqueue w sf frame =
     w\<lparr>sfHeap := (sfHeap w)(sf := (sfHeap w sf)\<lparr>sendQueue := sendQueue (sfHeap w sf) @ [frame]\<rparr>)\<rparr>"

text \<open>
  Lines 40-46: the first loop of \<^verbatim>\<open>Write\<close>, a \<^verbatim>\<open>select\<close> with a \<^verbatim>\<open>default\<close> on each
  subflow in turn. \<open>Some\<close> is the state after the first send that went through.
\<close>

fun trySend :: "world \<Rightarrow> addr list \<Rightarrow> addr \<Rightarrow> world option" where
  "trySend w [] frame = None"
| "trySend w (sf # rest) frame =
     (if hasSpace (sfHeap w sf) then Some (enqueue w sf frame) else trySend w rest frame)"

text \<open>
  What a call of \<^verbatim>\<open>Write\<close> comes to: it returned \<^verbatim>\<open>(n, err)\<close>, or its goroutine is parked
  in the send \<^verbatim>\<open>sf.sendQueue <- frame\<close> of line 49 and returns \<^verbatim>\<open>(n, nil)\<close> once that
  send goes through.
\<close>

datatype write_result = Returned int "error option" | Blocked addr addr int

text \<open>Line 49, a send without \<^verbatim>\<open>default\<close>: it goes through when there is space, and parks otherwise.\<close>

definition blockingSend :: "world \<Rightarrow> addr \<Rightarrow> addr \<Rightarrow> int \<Rightarrow> world \<times> write_result" where
  "blockingSend w sf frame n =
     (if hasSpace (sfHeap w sf) then (enqueue w sf frame, Returned n None)
      else (w, Blocked sf frame n))"

text \<open>Line 38: \<^verbatim>\<open>atomic.AddUint64\<close> adds 1 modulo \<open>2 ^ 64\<close> and returns the new value.\<close>

definition stampFrame :: "world \<Rightarrow> bytes \<Rightarrow> addr \<times> world" where
  "stampFrame w b =
     (let n = lastFN (bc w) + 1
      in composeFrame (w\<lparr>bc := (bc w)\<lparr>lastFN := n\<rparr>\<rparr>) n b)"

text \<open>Lines 40-52.\<close>

definition dispatch :: "world \<Rightarrow> addr \<Rightarrow> int \<Rightarrow> world \<times> write_result" where
  "dispatch w frame n =
     (case trySend w (sortedSubflows w) frame of
        Some w' \<Rightarrow> (w', Returned n None)
      | None \<Rightarrow>
          (case sortedSubflows w of
             [] \<Rightarrow> (w, Returned 0 (Some ErrClosed))
           | sf # _ \<Rightarrow> blockingSend w sf frame n))"

definition Write :: "world \<Rightarrow> bytes \<Rightarrow> world \<times> write_result" where
  "Write w b = (let (frame, w1) = stampFrame w b in dispatch w1 frame (int (length b)))"

text \<open>
  A parked \<^verbatim>\<open>Write\<close> scheduled again in a later state \<open>w\<close>: the send of line 49 is
  retried, and line 50 returns once it went through.
\<close>

fun resume :: "world \<Rightarrow> write_result \<Rightarrow> world \<times> write_result" where
  "resume w (Blocked sf frame n) = blockingSend w sf frame n"
| "resume w (Returned n e) = (w, Returned n e)"

text \<open>
  What one call of \<^verbatim>\<open>sortedSubflows\<close> may return in state \<open>w\<close>: \<^verbatim>\<open>sort.Slice\<close> leaves a
  permutation of the copied slice that is sorted by RTT, whatever the order among
  subflows of equal RTT.
\<close>

definition sortedSnapshot :: "world \<Rightarrow> addr list \<Rightarrow> bool" where
  "sortedSnapshot w snapshot =
     (mset snapshot = mset (subflows (bc w))
      \<and> sorted (map (\<lambda>sf. getRTT (sfHeap w sf)) snapshot))"

text \<open>
  Lines 40-52 and lines 37-53 once more, with what the call of \<^verbatim>\<open>sortedSubflows\<close> of
  line 40 and the call of line 48 returned as the parameters \<open>snapshot1\<close> and
  \<open>snapshot2\<close>. \<open>dispatch\<close> and \<open>Write\<close> are the case where both are the
  \<open>sort_key\<close> order.
\<close>

definition dispatchWith ::
  "world \<Rightarrow> addr list \<Rightarrow> addr list \<Rightarrow> addr \<Rightarrow> int \<Rightarrow> world \<times> write_result" where
  "dispatchWith w snapshot1 snapshot2 frame n =
     (case trySend w snapshot1 frame of
        Some w' \<Rightarrow> (w', Returned n None)
      | None \<Rightarrow>
          (case snapshot2 of
             [] \<Rightarrow> (w, Returned 0 (Some ErrClosed))
           | sf # _ \<Rightarrow> blockingSend w sf frame n))"

definition WriteWith :: "world \<Rightarrow> addr list \<Rightarrow> addr list \<Rightarrow> bytes \<Rightarrow> world \<times> write_result" where
  "WriteWith w snapshot1 snapshot2 b =
     (let (frame, w1) = stampFrame w b
      in dispatchWith w1 snapshot1 snapshot2 frame (int (length b)))"

text \<open>
  A sequence of \<^verbatim>\<open>Write\<close> calls on one connection, each run until it returns or parks:
  for every call the frame number on the frame it composed and what the call came to.
\<close>

fun Writes :: "world \<Rightarrow> bytes list \<Rightarrow> (uint64 \<times> write_result) list \<times> world" where
  "Writes w [] = ([], w)"
| "Writes w (b # bs) =
     (let (frame, w1) = stampFrame w b;
          (w2, r) = dispatch w1 frame (int (length b));
          (rs, w3) = Writes w2 bs
      in ((sendFrame.fn (frameHeap w2 frame), r) # rs, w3))"

subsection \<open>close and remove\<close>

text \<open>Lines 63-66.\<close>

definition close :: "world \<Rightarrow> world" where
  "close w = w\<lparr>bc := (bc w)\<lparr>closed := 1, recvQueueClosed := True\<rparr>\<rparr>"

text \<open>Lines 167-181: \<^verbatim>\<open>sf != theSubflow\<close> compares pointers.\<close>

definition remove :: "world \<Rightarrow> addr \<Rightarrow> world" where
  "remove w theSubflow =
     (let remains = filter (\<lambda>sf. sf \<noteq> theSubflow) (subflows (bc w));
          w1 = w\<lparr>bc := (bc w)\<lparr>subflows := remains\<rparr>\<rparr>;
          left = length remains
      in if left = 0 then close w1 else w1)"

subsection \<open>retransmit\<close>

text \<open>
  What a call of \<^verbatim>\<open>retransmit\<close> comes to: it returned, or its goroutine is parked in the
  receive \<^verbatim>\<open><-bc.tryRetransmit\<close> of line 139.
\<close>

datatype retransmit_result = Done | Waiting

definition setBeingRetransmitted :: "world \<Rightarrow> addr \<Rightarrow> uint64 \<Rightarrow> world" where
  "setBeingRetransmitted w frame v =
     w\<lparr>frameHeap := (frameHeap w)(frame := (frameHeap w frame)\<lparr>beingRetransmitted := v\<rparr>)\<rparr>"

definition incRetransmissions :: "world \<Rightarrow> addr \<Rightarrow> world" where
  "incRetransmissions w frame =
     w\<lparr>frameHeap := (frameHeap w)(frame :=
         (frameHeap w frame)\<lparr>retransmissions := retransmissions (frameHeap w frame) + 1\<rparr>)\<rparr>"

text \<open>
  Lines 125-135, one pass over the snapshot. The \<^verbatim>\<open>select\<close> has two cases and a
  \<^verbatim>\<open>default\<close>; when \<^verbatim>\<open>chClose\<close> is closed and the queue has space both cases are ready
  and Go picks one of them: \<open>pickClose sf\<close> says that it picks the receive from
  \<^verbatim>\<open>chClose\<close>. \<open>Some\<close> is the state after the send of line 129 and the increment of
  line 130.
\<close>

fun offer :: "(addr \<Rightarrow> bool) \<Rightarrow> world \<Rightarrow> addr list \<Rightarrow> addr \<Rightarrow> world option" where
  "offer pickClose w [] frame = None"
| "offer pickClose w (sf # rest) frame =
     (if chClose (sfHeap w sf) \<and> hasSpace (sfHeap w sf) then
        (if pickClose sf then offer pickClose w rest frame
         else Some (incRetransmissions (enqueue w sf frame) frame))
      else if chClose (sfHeap w sf) then offer pickClose w rest frame
      else if hasSpace (sfHeap w sf) then Some (incRetransmissions (enqueue w sf frame) frame)
      else offer pickClose w rest frame)"

text \<open>
  Lines 119-140, the loop from its \<open>i\<close>-th round on. \<^verbatim>\<open>abort\<close> is never set, so the loop
  is left by a \<^verbatim>\<open>return\<close> only. A round that sends nothing receives from
  \<^verbatim>\<open>tryRetransmit\<close>: it takes a buffered token and goes round again, or parks when there
  is none.
\<close>

function retransmitFrom ::
  "(nat \<Rightarrow> addr \<Rightarrow> bool) \<Rightarrow> nat \<Rightarrow> world \<Rightarrow> addr list \<Rightarrow> addr \<Rightarrow> world \<times> retransmit_result" where
  "retransmitFrom pick i w sfs frame =
     (if closed (bc w) = 1 then (w, Done)
      else (case offer (pick i) w sfs frame of
              Some w' \<Rightarrow> (w', Done)
            | None \<Rightarrow>
                (case tryRetransmit (bc w) of
                   [] \<Rightarrow> (w, Waiting)
                 | _ # tokens \<Rightarrow>
                     retransmitFrom pick (Suc i) (w\<lparr>bc := (bc w)\<lparr>tryRetransmit := tokens\<rparr>\<rparr>)
                       sfs frame)))"
  by pat_completeness auto
termination
  by (relation "measure (\<lambda>(pick, i, w, sfs, frame). length (tryRetransmit (bc w)))") auto

text \<open>
  Lines 102-148. The deferred store of 0 runs when the function returns; a parked call
  still holds the flag. The call \<^verbatim>\<open>frame.isDataFrame()\<close> of line 115 has no effect.
\<close>

definition retransmit ::
  "(nat \<Rightarrow> addr \<Rightarrow> bool) \<Rightarrow> world \<Rightarrow> addr \<Rightarrow> world \<times> retransmit_result" where
  "retransmit pick w frame =
     (if beingRetransmitted (frameHeap w frame) = 1 then (w, Done)
      else
        (let w1 = setBeingRetransmitted w frame 1;
             sfs = sortedSubflows w1;
             (w2, r) = retransmitFrom pick 0 w1 sfs frame
         in (case r of
               Done \<Rightarrow> (setBeingRetransmitted w2 frame 0, Done)
             | Waiting \<Rightarrow> (w2, Waiting))))"

subsection \<open>isPendingAck and retransmitLoop\<close>

text \<open>Lines 229-237. In Go the lookup of a missing key gives \<^verbatim>\<open>nil\<close>.\<close>

definition isPendingAck :: "uint64 \<Rightarrow> world \<Rightarrow> uint64 \<Rightarrow> bool" where
  "isPendingAck minFrameNumber w n =
     (if n > minFrameNumber then pendingAckMap (bc w) n \<noteq> None else False)"

text \<open>
  Line 196: \<^verbatim>\<open>time.Since(frame.sentAt) > frame.outboundSf.retransTimer()\<close>, with the
  clock's reading \<open>now\<close> and the subflow's timeout as it is at that moment.
\<close>

definition overdue :: "world \<Rightarrow> instant \<Rightarrow> pendingAck \<Rightarrow> bool" where
  "overdue w now e = (now - sentAt e > retransTimer (sfHeap w (outboundSf e)))"

text \<open>
  Lines 194-201. Go ranges over a map in an order of its choosing: \<open>order\<close> is that
  order, a list of the map's keys, and \<open>clock k\<close> is what the clock reads when the entry
  under \<open>k\<close> is looked at. The entries are copied (\<^verbatim>\<open>*frame\<close>) in that order. Go
  yields keys of the map only; a key of \<open>order\<close> that is not in the map is passed over.
  Durations and instants are integers (nanoseconds), without the bounds of int64.
\<close>

fun collect :: "world \<Rightarrow> (uint64 \<Rightarrow> instant) \<Rightarrow> uint64 list \<Rightarrow> pendingAck list" where
  "collect w clock [] = []"
| "collect w clock (k # ks) =
     (case pendingAckMap (bc w) k of
        None \<Rightarrow> collect w clock ks
      | Some e \<Rightarrow>
          (if overdue w (clock k) e then
             (if pendingAckMap (bc w) k \<noteq> None then e # collect w clock ks
              else collect w clock ks)
           else collect w clock ks))"

text \<open>
  Lines 204-206. \<^verbatim>\<open>sort.Slice\<close> promises no order among entries of equal \<^verbatim>\<open>fn\<close>;
  \<open>sort_key\<close> keeps them in the order collected.
\<close>

definition RetransmitFrames :: "world \<Rightarrow> (uint64 \<Rightarrow> instant) \<Rightarrow> uint64 list \<Rightarrow> pendingAck list" where
  "RetransmitFrames w clock order = sort_key pendingAck.fn (collect w clock order)"

text \<open>
  Modelled from the spec: \<^verbatim>\<open>release()\<close> of a frame is not in conn.go. It releases the
  frame's buffer, which the model records in \<open>released\<close>.
\<close>

definition release :: "world \<Rightarrow> addr \<Rightarrow> world" where
  "release w frame =
     w\<lparr>frameHeap := (frameHeap w)(frame := (frameHeap w frame)\<lparr>released := True\<rparr>)\<rparr>"

definition deletePending :: "world \<Rightarrow> uint64 \<Rightarrow> world" where
  "deletePending w n = w\<lparr>bc := (bc w)\<lparr>pendingAckMap := (pendingAckMap (bc w))(n := None)\<rparr>\<rparr>"

text \<open>
  What the sweep does with one collected entry: it starts a goroutine running
  \<^verbatim>\<open>retransmit\<close> (line 214), it leaves a frame alone that is being retransmitted, or it
  releases the frame and deletes the entry (lines 219-222).
\<close>

datatype sweep_action = GoRetransmit pendingAck | Skip pendingAck | ReleaseDelete pendingAck

fun entryOf :: "sweep_action \<Rightarrow> pendingAck" where
  "entryOf (GoRetransmit e) = e"
| "entryOf (Skip e) = e"
| "entryOf (ReleaseDelete e) = e"

fun isReleaseDelete :: "sweep_action \<Rightarrow> bool" where
  "isReleaseDelete (ReleaseDelete e) = True"
| "isReleaseDelete (GoRetransmit e) = False"
| "isReleaseDelete (Skip e) = False"

text \<open>Lines 209-223, the body of the second loop.\<close>

definition processFrame :: "uint64 \<Rightarrow> world \<Rightarrow> pendingAck \<Rightarrow> sweep_action \<times> world" where
  "processFrame minFrameNumber w e =
     (if isPendingAck minFrameNumber w (pendingAck.fn e) then
        (if beingRetransmitted (frameHeap w (framePtr e)) = 0 then (GoRetransmit e, w)
         else (Skip e, w))
      else (ReleaseDelete e, deletePending (release w (framePtr e)) (pendingAck.fn e)))"

text \<open>Lines 208-224. The goroutines started are recorded, not run.\<close>

fun processFrames :: "uint64 \<Rightarrow> world \<Rightarrow> pendingAck list \<Rightarrow> sweep_action list \<times> world" where
  "processFrames minFrameNumber w [] = ([], w)"
| "processFrames minFrameNumber w (e # es) =
     (let (a, w1) = processFrame minFrameNumber w e;
          (as, w2) = processFrames minFrameNumber w1 es
      in (a # as, w2))"

text \<open>Lines 193-224, the work of one tick on an open connection.\<close>

definition sweep ::
  "uint64 \<Rightarrow> world \<Rightarrow> (uint64 \<Rightarrow> instant) \<Rightarrow> uint64 list \<Rightarrow> sweep_action list \<times> world" where
  "sweep minFrameNumber w clock order =
     processFrames minFrameNumber w (RetransmitFrames w clock order)"

text \<open>
  Lines 183-227, over the ticks delivered so far, each with the clock and the map order
  of its sweep. The loop returns at the first tick that finds the connection closed;
  with no tick left it is parked on the ticker.
\<close>

fun retransmitLoop ::
  "uint64 \<Rightarrow> world \<Rightarrow> ((uint64 \<Rightarrow> instant) \<times> uint64 list) list \<Rightarrow> sweep_action list list \<times> world" where
  "retransmitLoop minFrameNumber w [] = ([], w)"
| "retransmitLoop minFrameNumber w ((clock, order) # ticks) =
     (if closed (bc w) = 1 then ([], w)
      else
        (let (as, w1) = sweep minFrameNumber w clock order;
             (rest, w2) = retransmitLoop minFrameNumber w1 ticks
         in (as # rest, w2)))"

subsection \<open>add\<close>

text \<open>
  Lines 161-165. \<^verbatim>\<open>startSubflow\<close> is not in conn.go; \<open>sf\<close> is the pointer it returns.
\<close>

definition add :: "world \<Rightarrow> addr \<Rightarrow> world" where
  "add w sf = w\<lparr>bc := (bc w)\<lparr>subflows := subflows (bc w) @ [sf]\<rparr>\<rparr>"

subsection \<open>Example states\<close>

text \<open>
  Concrete states for the examples below: a subflow with an empty queue of capacity 1,
  RTT 10 and retransmission timeout 100; a store that holds it at every address; a
  connection with two subflows, the one at address 0 with RTT 50 and the one at address 1
  with RTT 10; the same with both queues full.
\<close>

definition idleSubflow :: subflow where
  "idleSubflow =
     \<lparr>sendQueue = [], sendQueueCap = 1, chClose = False, getRTT = 10, retransTimer = 100\<rparr>"

definition blankFrame :: sendFrame where
  "blankFrame =
     \<lparr>sendFrame.fn = 0, buf = [], retransmissions = 0, beingRetransmitted = 0,
      released = False\<rparr>"

definition worldOf :: "mpConn \<Rightarrow> world" where
  "worldOf c = \<lparr>bc = c, sfHeap = (\<lambda>_. idleSubflow), frameHeap = (\<lambda>_. blankFrame), nextFrame = 0\<rparr>"

definition twoPaths :: world where
  "twoPaths =
     (add (add (worldOf (newMPConn 10 7)) 0) 1)
       \<lparr>sfHeap := (\<lambda>_. idleSubflow)
          (0 := idleSubflow\<lparr>getRTT := 50\<rparr>, 1 := idleSubflow\<lparr>getRTT := 10\<rparr>)\<rparr>"

definition bothFull :: world where
  "bothFull =
     twoPaths\<lparr>sfHeap := (\<lambda>_. idleSubflow)
       (0 := idleSubflow\<lparr>getRTT := 50, sendQueue := [5]\<rparr>,
        1 := idleSubflow\<lparr>getRTT := 10, sendQueue := [6]\<rparr>)\<rparr>"

text \<open>The state after the send loop of the subflow at \<open>sf\<close> has taken every frame out of its queue.\<close>

definition drain :: "world \<Rightarrow> addr \<Rightarrow> world" where
  "drain w sf = w\<lparr>sfHeap := (sfHeap w)(sf := (sfHeap w sf)\<lparr>sendQueue := []\<rparr>)\<rparr>"

text \<open>
  A pending entry for frame number \<open>n\<close>, sent at time 0 on the subflow at address 0.
  \<open>firstPending\<close> is a connection made with \<^verbatim>\<open>minFrameNumber\<close> = 10 after one subflow was
  added, the first \<^verbatim>\<open>Write\<close> was made and its frame was entered in the pending map.
  \<open>pendingWorld m ks\<close> has a pending entry under every key of \<open>ks\<close>.
\<close>

definition pendingOf :: "uint64 \<Rightarrow> addr \<Rightarrow> pendingAck" where
  "pendingOf n frame = \<lparr>pendingAck.fn = n, sentAt = 0, outboundSf = 0, framePtr = frame\<rparr>"

definition firstPending :: world where
  "firstPending =
     (let w = fst (Write (add (worldOf (newMPConn 10 7)) 0) [1, 2, 3])
      in w\<lparr>bc := (bc w)\<lparr>pendingAckMap := [10 \<mapsto> pendingOf 10 0]\<rparr>\<rparr>)"

definition pendingWorld :: "uint64 \<Rightarrow> uint64 list \<Rightarrow> world" where
  "pendingWorld m ks =
     (let w = add (worldOf (newMPConn m 7)) 0
      in w\<lparr>bc := (bc w)\<lparr>pendingAckMap := map_of (map (\<lambda>k. (k, pendingOf k (unat k))) ks)\<rparr>\<rparr>)"

section \<open>Facts about the write path\<close>

lemma stampFrame_fst: "fst (stampFrame w b) = nextFrame w"
  by (simp add: stampFrame_def composeFrame_def Let_def)

lemma stampFrame_bc: "bc (snd (stampFrame w b)) = (bc w)\<lparr>lastFN := lastFN (bc w) + 1\<rparr>"
  by (simp add: stampFrame_def composeFrame_def Let_def)

lemma stampFrame_sfHeap: "sfHeap (snd (stampFrame w b)) = sfHeap w"
  by (simp add: stampFrame_def composeFrame_def Let_def)

lemma stampFrame_fn:
  "sendFrame.fn (frameHeap (snd (stampFrame w b)) (fst (stampFrame w b))) = lastFN (bc w) + 1"
  by (simp add: stampFrame_def composeFrame_def Let_def)

lemma trySend_Some:
  "trySend w sfs frame = Some w' \<Longrightarrow> bc w' = bc w \<and> frameHeap w' = frameHeap w"
  by (induction sfs) (auto simp: enqueue_def split: if_splits)

lemma trySend_full:
  "\<forall>sf \<in> set sfs. \<not> hasSpace (sfHeap w sf) \<Longrightarrow> trySend w sfs frame = None"
  by (induction sfs) simp_all

lemma dispatch_bc: "bc (fst (dispatch w frame n)) = bc w"
  by (auto simp: dispatch_def blockingSend_def enqueue_def dest: trySend_Some
      split: option.splits list.splits)

lemma dispatch_frameHeap: "frameHeap (fst (dispatch w frame n)) = frameHeap w"
  by (auto simp: dispatch_def blockingSend_def enqueue_def dest: trySend_Some
      split: option.splits list.splits)

lemma Write_unfold:
  "Write w b = dispatch (snd (stampFrame w b)) (nextFrame w) (int (length b))"
  by (simp add: Write_def split_beta stampFrame_fst)

lemma Write_lastFN: "lastFN (bc (fst (Write w b))) = lastFN (bc w) + 1"
  by (simp add: Write_def split_beta dispatch_bc stampFrame_bc)

text \<open>A sequence of calls, one call at a time.\<close>

lemma Writes_Cons:
  "Writes w (b # bs) =
     ((lastFN (bc w) + 1, snd (Write w b)) # fst (Writes (fst (Write w b)) bs),
      snd (Writes (fst (Write w b)) bs))"
  by (simp add: Write_def split_beta dispatch_frameHeap stampFrame_fn)

lemma Writes_length: "length (fst (Writes w bs)) = length bs"
  by (induction bs arbitrary: w) (simp_all add: split_beta)

declare Writes.simps(2) [simp del]

lemma Writes_lastFN:
  "lastFN (bc (snd (Writes w bs))) = lastFN (bc w) + word_of_nat (length bs)"
  by (induction bs arbitrary: w) (simp_all add: Writes_Cons Write_lastFN add.assoc)

text \<open>The \<open>i\<close>-th call of a sequence stamps \<open>lastFN + 1 + i\<close>, in uint64 arithmetic.\<close>

lemma Writes_stamps:
  "map fst (fst (Writes w bs)) = map (\<lambda>i. lastFN (bc w) + 1 + word_of_nat i) [0..<length bs]"
proof (induction bs arbitrary: w)
  case Nil
  show ?case by simp
next
  case (Cons b bs)
  have "map (\<lambda>i. lastFN (bc w) + 1 + word_of_nat i) [0..<length (b # bs)] =
        (lastFN (bc w) + 1) # map (\<lambda>i. lastFN (bc w) + 1 + word_of_nat (Suc i)) [0..<length bs]"
    by (simp add: upt_conv_Cons map_Suc_upt [symmetric] del: upt_Suc)
  also have "map (\<lambda>i. lastFN (bc w) + 1 + word_of_nat (Suc i)) [0..<length bs] =
        map (\<lambda>i. lastFN (bc (fst (Write w b))) + 1 + word_of_nat i) [0..<length bs]"
    by (simp add: Write_lastFN add.commute add.left_commute)
  finally show ?case
    by (simp only: Writes_Cons Cons.IH list.map fst_conv)
qed

lemma stamp_unat:
  assumes "unat (x :: uint64) + Suc i < 2 ^ 64"
  shows "unat (x + 1 + word_of_nat i) = unat x + 1 + i"
proof -
  have "unat (x + 1 + word_of_nat i) = (unat x + 1 + i) mod 2 ^ 64"
    by (simp add: unat_word_ariths unat_of_nat mod_simps)
  with assms show ?thesis by simp
qed

lemma stamps_sorted:
  assumes "unat (x :: uint64) + n < 2 ^ 64"
  shows "sorted_wrt (<) (map (\<lambda>i. x + 1 + word_of_nat i) [0..<n])"
proof -
  have "unat (x + 1 + word_of_nat i) < unat (x + 1 + word_of_nat j)" if "i < j" "j < n" for i j
  proof -
    from that assms have "unat x + Suc i < 2 ^ 64" "unat x + Suc j < 2 ^ 64" by simp_all
    then show ?thesis using that by (simp add: stamp_unat)
  qed
  then show ?thesis
    by (simp add: sorted_wrt_iff_nth_less word_less_nat_alt)
qed

lemma stamps_above:
  assumes "unat (x :: uint64) + n < 2 ^ 64" "i < n"
  shows "x < x + 1 + word_of_nat i"
proof -
  from assms have "unat x + Suc i < 2 ^ 64" by simp
  then show ?thesis by (simp add: word_less_nat_alt stamp_unat)
qed

text \<open>A connection whose counter is as \<^verbatim>\<open>newMPConn\<close> left it.\<close>

lemma add_lastFN: "lastFN (bc (foldl add w sfs)) = lastFN (bc w)"
  by (induction sfs arbitrary: w) (simp_all add: add_def)

lemma first_stamp:
  "lastFN (bc w) = m - 1 \<Longrightarrow> fst (hd (fst (Writes w (b # bs)))) = m"
  by (simp add: Writes_Cons)

lemma stamps_from_min:
  assumes "lastFN (bc w) = m - 1" "unat m + length bs \<le> 2 ^ 64"
  shows "\<forall>n \<in> set (map fst (fst (Writes w bs))). m \<le> n"
proof
  fix n assume "n \<in> set (map fst (fst (Writes w bs)))"
  then obtain i where i: "i < length bs" "n = m + word_of_nat i"
    using assms(1) by (auto simp: Writes_stamps)
  with assms(2) have "unat m + i < 2 ^ 64" by simp
  then have "unat (m + word_of_nat i) = unat m + i"
    by (simp add: unat_word_ariths unat_of_nat mod_simps)
  then show "m \<le> n" by (simp add: i word_le_nat_alt)
qed

subsection \<open>The sorted snapshot\<close>

lemma sort_key_hd:
  assumes "xs \<noteq> []"
  shows "hd (sort_key f xs) \<in> set xs \<and> (\<forall>x \<in> set xs. f (hd (sort_key f xs)) \<le> f x)"
proof -
  obtain y ys where ys: "sort_key f xs = y # ys"
    using assms by (cases "sort_key f xs") (auto dest: arg_cong [where f = length])
  have "sorted (map f (y # ys))"
    using sorted_sort_key [of f xs] by (simp only: ys)
  moreover have "set xs = insert y (set ys)"
    using set_sort [of f xs] by (simp only: ys list.set)
  ultimately show ?thesis
    by (auto simp: ys)
qed

lemma sortedSubflows_hd:
  assumes "subflows (bc w) \<noteq> []"
  shows "hd (sortedSubflows w) \<in> set (subflows (bc w))"
    and "\<forall>x \<in> set (subflows (bc w)).
           getRTT (sfHeap w (hd (sortedSubflows w))) \<le> getRTT (sfHeap w x)"
  using sort_key_hd [OF assms, of "\<lambda>sf. getRTT (sfHeap w sf)"]
  by (simp_all add: sortedSubflows_def)

lemma sortedSubflows_Cons:
  assumes "subflows (bc w) \<noteq> []"
  shows "sortedSubflows w = hd (sortedSubflows w) # tl (sortedSubflows w)"
proof -
  have "length (sortedSubflows w) = length (subflows (bc w))"
    by (simp add: sortedSubflows_def)
  with assms have "sortedSubflows w \<noteq> []" by auto
  then show ?thesis by simp
qed

lemma set_sortedSubflows: "set (sortedSubflows w) = set (subflows (bc w))"
  by (simp add: sortedSubflows_def)

lemma sortedSubflows_Nil: "subflows (bc w) = [] \<Longrightarrow> sortedSubflows w = []"
  by (simp add: sortedSubflows_def)

lemma sortedSubflows_stampFrame: "sortedSubflows (snd (stampFrame w b)) = sortedSubflows w"
  by (simp add: sortedSubflows_def stampFrame_bc stampFrame_sfHeap)

lemma sortedSubflows_lowest:
  assumes "distinct (map (\<lambda>sf. getRTT (sfHeap w sf)) (subflows (bc w)))"
    and "sf \<in> set (subflows (bc w))"
    and "\<forall>x \<in> set (subflows (bc w)). getRTT (sfHeap w sf) \<le> getRTT (sfHeap w x)"
  shows "hd (sortedSubflows w) = sf"
proof -
  from assms(2) have ne: "subflows (bc w) \<noteq> []" by auto
  note h = sortedSubflows_hd [OF ne]
  from h assms(2,3) have "getRTT (sfHeap w (hd (sortedSubflows w))) = getRTT (sfHeap w sf)"
    by (meson order_antisym)
  moreover from assms(1) have "inj_on (\<lambda>sf. getRTT (sfHeap w sf)) (set (subflows (bc w)))"
    by (simp add: distinct_map)
  ultimately show ?thesis
    using h(1) assms(2) by (auto dest: inj_onD)
qed

text \<open>Any snapshot a call may return starts with a subflow of lowest RTT.\<close>

lemma sortedSnapshot_sortedSubflows: "sortedSnapshot w (sortedSubflows w)"
  by (simp add: sortedSnapshot_def sortedSubflows_def)

lemma sortedSnapshot_set: "sortedSnapshot w xs \<Longrightarrow> set xs = set (subflows (bc w))"
  by (auto simp: sortedSnapshot_def dest: mset_eq_setD)

lemma sortedSnapshot_Cons:
  assumes "sortedSnapshot w xs" and "subflows (bc w) \<noteq> []"
  shows "xs = hd xs # tl xs"
proof -
  from assms(1) have "length xs = length (subflows (bc w))"
    by (auto simp: sortedSnapshot_def dest: mset_eq_length)
  with assms(2) have "xs \<noteq> []" by auto
  then show ?thesis by simp
qed

lemma sortedSnapshot_hd:
  assumes "sortedSnapshot w xs" and "subflows (bc w) \<noteq> []"
  shows "hd xs \<in> set (subflows (bc w))"
    and "\<forall>x \<in> set (subflows (bc w)). getRTT (sfHeap w (hd xs)) \<le> getRTT (sfHeap w x)"
proof -
  note c = sortedSnapshot_Cons [OF assms]
  note s = sortedSnapshot_set [OF assms(1)]
  from c have "hd xs \<in> set xs"
    by (metis list.set_intros(1))
  then show "hd xs \<in> set (subflows (bc w))"
    by (simp add: s)
  from assms(1) have "sorted (map (\<lambda>sf. getRTT (sfHeap w sf)) (hd xs # tl xs))"
    using c by (simp add: sortedSnapshot_def)
  then have "\<forall>x \<in> set (hd xs # tl xs). getRTT (sfHeap w (hd xs)) \<le> getRTT (sfHeap w x)"
    by auto
  then show "\<forall>x \<in> set (subflows (bc w)). getRTT (sfHeap w (hd xs)) \<le> getRTT (sfHeap w x)"
    using c s by simp
qed

lemma sortedSnapshot_stampFrame: "sortedSnapshot (snd (stampFrame w b)) xs = sortedSnapshot w xs"
  by (simp add: sortedSnapshot_def stampFrame_bc stampFrame_sfHeap)

lemma WriteWith_unfold:
  "WriteWith w xs ys b = dispatchWith (snd (stampFrame w b)) xs ys (nextFrame w) (int (length b))"
  by (simp add: WriteWith_def split_beta stampFrame_fst)

lemma Write_WriteWith: "Write w b = WriteWith w (sortedSubflows w) (sortedSubflows w) b"
  by (simp add: Write_unfold WriteWith_unfold dispatch_def dispatchWith_def
      sortedSubflows_stampFrame split: option.splits)

lemma stampFrame_frame:
  "frameHeap (snd (stampFrame w b)) (nextFrame w) =
     \<lparr>sendFrame.fn = lastFN (bc w) + 1, buf = b, retransmissions = 0, beingRetransmitted = 0,
      released = False\<rparr>"
  by (simp add: stampFrame_def composeFrame_def Let_def)

subsection \<open>Writing with no subflow\<close>

lemma Write_Nil:
  assumes "subflows (bc w) = []"
  shows "Write w b = (snd (stampFrame w b), Returned 0 (Some ErrClosed))"
proof -
  have "sortedSubflows (snd (stampFrame w b)) = []"
    using assms by (simp add: sortedSubflows_stampFrame sortedSubflows_Nil)
  then show ?thesis
    by (simp add: Write_unfold dispatch_def)
qed

lemma Writes_Nil:
  "subflows (bc w) = [] \<Longrightarrow>
     map snd (fst (Writes w bs)) = replicate (length bs) (Returned 0 (Some ErrClosed))"
  by (induction bs arbitrary: w) (simp_all add: Writes_Cons Write_Nil stampFrame_bc)

section \<open>Facts about the sweep\<close>

lemma set_collect:
  "set (collect w clock order) =
     {e. \<exists>k \<in> set order. pendingAckMap (bc w) k = Some e \<and> overdue w (clock k) e}"
  by (induction order) (auto split: option.splits)

lemma length_collect:
  "length (collect w clock order) =
     length (filter (\<lambda>k. \<exists>e. pendingAckMap (bc w) k = Some e \<and> overdue w (clock k) e) order)"
  by (induction order) (auto split: option.splits)

lemma processFrames_entries: "map entryOf (fst (processFrames m w es)) = es"
  by (induction es arbitrary: w) (simp_all add: split_beta processFrame_def)

text \<open>
  An entry above the sentinel that is in the map when its turn comes is judged
  pending; the entries deleted on the way have numbers at or below the sentinel.
\<close>

lemma processFrames_pending:
  assumes "\<forall>e \<in> set es. m < pendingAck.fn e \<longrightarrow> pendingAckMap (bc w) (pendingAck.fn e) \<noteq> None"
  shows "(\<forall>a \<in> set (fst (processFrames m w es)).
            m < pendingAck.fn (entryOf a) \<longrightarrow> \<not> isReleaseDelete a)
       \<and> (\<forall>k. m < k \<longrightarrow>
            pendingAckMap (bc (snd (processFrames m w es))) k = pendingAckMap (bc w) k)"
  using assms
proof (induction es arbitrary: w)
  case Nil
  show ?case by simp
next
  case (Cons e es)
  show ?case
  proof (cases "isPendingAck m w (pendingAck.fn e)")
    case True
    then have "snd (processFrame m w e) = w" "\<not> isReleaseDelete (fst (processFrame m w e))"
      by (simp_all add: processFrame_def)
    moreover from Cons.prems
    have "\<forall>e \<in> set es. m < pendingAck.fn e \<longrightarrow> pendingAckMap (bc w) (pendingAck.fn e) \<noteq> None"
      by simp
    ultimately show ?thesis
      using Cons.IH [of w] by (simp add: split_beta)
  next
    case False
    let ?w1 = "deletePending (release w (framePtr e)) (pendingAck.fn e)"
    from False have P: "processFrame m w e = (ReleaseDelete e, ?w1)"
      by (simp add: processFrame_def)
    from False Cons.prems have le: "\<not> m < pendingAck.fn e"
      by (auto simp: isPendingAck_def)
    have map1: "pendingAckMap (bc ?w1) k = pendingAckMap (bc w) k" if "m < k" for k
      using that le by (auto simp: deletePending_def release_def)
    with Cons.prems
    have "\<forall>e \<in> set es. m < pendingAck.fn e \<longrightarrow> pendingAckMap (bc ?w1) (pendingAck.fn e) \<noteq> None"
      by simp
    from Cons.IH [OF this] show ?thesis
      using le map1 by (simp add: P split_beta)
  qed
qed

lemma processFrames_unchanged:
  assumes "\<forall>e \<in> set es. isPendingAck m w (pendingAck.fn e)"
  shows "snd (processFrames m w es) = w"
  using assms by (induction es) (simp_all add: split_beta processFrame_def)

section \<open>The example states, evaluated\<close>

lemma twoPaths_simps:
  "subflows (bc twoPaths) = [0, Suc 0]"
  "lastFN (bc twoPaths) = 9"
  "nextFrame twoPaths = 0"
  "sfHeap twoPaths 0 = idleSubflow\<lparr>getRTT := 50\<rparr>"
  "sfHeap twoPaths (Suc 0) = idleSubflow\<lparr>getRTT := 10\<rparr>"
  by (simp_all add: twoPaths_def add_def worldOf_def newMPConn_def)

lemma bothFull_simps:
  "subflows (bc bothFull) = [0, Suc 0]"
  "lastFN (bc bothFull) = 9"
  "nextFrame bothFull = 0"
  "sfHeap bothFull 0 = idleSubflow\<lparr>getRTT := 50, sendQueue := [5]\<rparr>"
  "sfHeap bothFull (Suc 0) = idleSubflow\<lparr>getRTT := 10, sendQueue := [6]\<rparr>"
  by (simp_all add: bothFull_def twoPaths_def add_def worldOf_def newMPConn_def)

lemma firstPending_simps:
  "pendingAckMap (bc firstPending) = [10 \<mapsto> pendingOf 10 0]"
  "sfHeap firstPending 0 = idleSubflow\<lparr>sendQueue := [0]\<rparr>"
  "frameHeap firstPending 0 =
     \<lparr>sendFrame.fn = 10, buf = [1, 2, 3], retransmissions = 0, beingRetransmitted = 0,
      released = False\<rparr>"
  by (simp_all add: firstPending_def Write_def stampFrame_def composeFrame_def dispatch_def
      sortedSubflows_def add_def worldOf_def newMPConn_def hasSpace_def enqueue_def
      idleSubflow_def)

lemma pendingWorld_simps:
  "pendingAckMap (bc (pendingWorld m ks)) = map_of (map (\<lambda>k. (k, pendingOf k (unat k))) ks)"
  "sfHeap (pendingWorld m ks) = (\<lambda>_. idleSubflow)"
  "frameHeap (pendingWorld m ks) = (\<lambda>_. blankFrame)"
  by (simp_all add: pendingWorld_def add_def worldOf_def)

lemmas example_defs = worldOf_def newMPConn_def add_def idleSubflow_def blankFrame_def

section \<open>Frame numbering\<close>

text \<open>
  C1, with the bound of the counter. For every sequence of \<^verbatim>\<open>Write\<close> calls on one
  connection that does not take the uint64 counter past \<open>2 ^ 64 - 1\<close> (\<^verbatim>\<open>lastFN\<close> plus
  the number of calls stays below \<open>2 ^ 64\<close>), the frame numbers stamped on the composed
  frames are strictly increasing and never reused: the \<open>i\<close>-th call stamps the
  incremented counter value \<open>lastFN + 1 + i\<close>, the counter ends at \<open>lastFN\<close> plus the
  number of calls, and every stamped number is above the counter's value before the
  sequence. A single call stamps its frame with \<open>lastFN + 1\<close> and leaves the counter
  there.
\<close>

theorem Write_frame_numbers_increasing:
  assumes "unat (lastFN (bc w)) + length bs < 2 ^ 64"
  shows "sendFrame.fn (frameHeap (fst (Write w b)) (nextFrame w)) = lastFN (bc w) + 1
       \<and> lastFN (bc (fst (Write w b))) = lastFN (bc w) + 1
       \<and> map fst (fst (Writes w bs)) =
           map (\<lambda>i. lastFN (bc w) + 1 + word_of_nat i) [0..<length bs]
       \<and> lastFN (bc (snd (Writes w bs))) = lastFN (bc w) + word_of_nat (length bs)
       \<and> sorted_wrt (<) (map fst (fst (Writes w bs)))
       \<and> distinct (map fst (fst (Writes w bs)))
       \<and> (\<forall>n \<in> set (map fst (fst (Writes w bs))). lastFN (bc w) < n)"
proof -
  let ?stamps = "map fst (fst (Writes w bs))"
  have s: "sorted_wrt (<) ?stamps"
    using assms by (simp only: Writes_stamps stamps_sorted)
  have a: "\<forall>n \<in> set ?stamps. lastFN (bc w) < n"
  proof
    fix n assume "n \<in> set ?stamps"
    then obtain i where "i < length bs" "n = lastFN (bc w) + 1 + word_of_nat i"
      by (auto simp: Writes_stamps)
    with assms show "lastFN (bc w) < n" by (simp add: stamps_above)
  qed
  have f: "sendFrame.fn (frameHeap (fst (Write w b)) (nextFrame w)) = lastFN (bc w) + 1"
    using stampFrame_fn [of w b] by (simp add: Write_unfold dispatch_frameHeap stampFrame_fst)
  from s a f show ?thesis
    by (simp add: strict_sorted_iff Writes_lastFN Write_lastFN Writes_stamps [symmetric])
qed

text \<open>
  Three calls on the connection with two subflows, whose counter stands at 9: the
  frames carry 10, 11 and 12.
\<close>

theorem Write_frame_numbers_increasing_witness:
  "unat (lastFN (bc twoPaths)) + length [[1], [2], [3 :: 8 word]] < 2 ^ 64
   \<and> map fst (fst (Writes twoPaths [[1], [2], [3]])) = [10, 11, 12]"
proof -
  have h: "unat (lastFN (bc twoPaths)) + length [[1], [2], [3 :: 8 word]] < 2 ^ 64"
    by (simp add: twoPaths_simps)
  from Write_frame_numbers_increasing [OF h, of "[]"] show ?thesis
    using h by (simp add: twoPaths_simps upt_rec)
qed

text \<open>
  C1 as stated, for every sequence, fails where the counter wraps. On a connection made
  with \<^verbatim>\<open>minFrameNumber\<close> = 10 the counter starts at 9; of \<open>2 ^ 64 - 9\<close> calls the first
  stamps 10 and the last stamps \<open>10 + (2 ^ 64 - 10) = 0\<close> in uint64 arithmetic, so the
  numbers are not strictly increasing.
\<close>

theorem Write_frame_numbers_wrap:
  "\<not> sorted_wrt (<)
       (map fst (fst (Writes (worldOf (newMPConn 10 7)) (replicate (2 ^ 64 - 9) []))))"
proof
  let ?n = "2 ^ 64 - 9 :: nat"
  let ?stamps = "map fst (fst (Writes (worldOf (newMPConn 10 7)) (replicate ?n [])))"
  assume sorted: "sorted_wrt (<) ?stamps"
  have len: "length ?stamps = ?n"
    by (simp only: length_map Writes_length length_replicate)
  have "?stamps ! 0 < ?stamps ! (?n - 1)"
    by (rule sorted_wrt_nth_less [OF sorted]) (simp_all only: len, simp_all)
  moreover have "?stamps ! i = 10 + word_of_nat i" if "i < ?n" for i
    using that by (simp only: Writes_stamps length_replicate nth_map length_upt nth_upt)
      (simp add: worldOf_def newMPConn_def)
  ultimately have "(10 :: uint64) + word_of_nat 0 < 10 + word_of_nat (?n - 1)"
    by simp
  then show False by simp
qed

text \<open>
  C6, with "equal to" for "strictly greater than". The first frame stamped by
  \<^verbatim>\<open>Write\<close> on a freshly created connection, whatever subflows have been added to it,
  carries exactly \<^verbatim>\<open>minFrameNumber\<close>; and as long as the counter has not wrapped
  (\<^verbatim>\<open>minFrameNumber\<close> plus the number of calls is at most \<open>2 ^ 64\<close>) no frame carries a
  number below \<^verbatim>\<open>minFrameNumber\<close>.
\<close>

theorem first_frame_number_is_min:
  "fst (hd (fst (Writes (foldl add (w\<lparr>bc := newMPConn m c\<rparr>) sfs) (b # bs)))) = m
   \<and> (unat m + length (b # bs) \<le> 2 ^ 64 \<longrightarrow>
        (\<forall>n \<in> set (map fst (fst (Writes (foldl add (w\<lparr>bc := newMPConn m c\<rparr>) sfs) (b # bs)))).
           m \<le> n))"
proof -
  have "lastFN (bc (foldl add (w\<lparr>bc := newMPConn m c\<rparr>) sfs)) = m - 1"
    by (simp add: add_lastFN newMPConn_def)
  then show ?thesis
    using first_stamp stamps_from_min by blast
qed

text \<open>
  With \<^verbatim>\<open>minFrameNumber\<close> = 10 and one subflow added, three calls stamp 10, 11 and 12.
\<close>

theorem first_frame_number_is_min_witness:
  "fst (hd (fst (Writes (add (worldOf (newMPConn 10 7)) 0) [[1], [2], [3]]))) = 10
   \<and> map fst (fst (Writes (add (worldOf (newMPConn 10 7)) 0) [[1], [2], [3]])) = [10, 11, 12]"
proof -
  have h: "unat (10 :: uint64) + length [[1], [2], [3 :: 8 word]] \<le> 2 ^ 64"
    by simp
  from first_frame_number_is_min
    [where w = "worldOf (newMPConn 10 7)" and m = 10 and c = 7 and sfs = "[0]" and b = "[1]"
       and bs = "[[2], [3]]"]
  show ?thesis
    using h by (simp add: Writes_stamps example_defs upt_rec)
qed

text \<open>
  C6 as stated fails on the first call: with \<^verbatim>\<open>minFrameNumber\<close> = 10 the counter starts
  at 9 and the first frame carries 10, which is not strictly greater than 10.
\<close>

theorem first_frame_number_not_above_min:
  "\<not> 10 < fst (hd (fst (Writes (add (worldOf (newMPConn 10 7)) 0) [[1, 2, 3]])))"
  by (simp add: Writes_Cons example_defs)

section \<open>Selecting a subflow\<close>

text \<open>
  C2. When the subflows of a connection have pairwise distinct RTT estimates and the
  queue of every one of them has space, \<^verbatim>\<open>Write\<close> returns the full payload length and
  no error, and the composed frame, carrying the next frame number and the payload, has
  been appended to the queue of the subflow \<open>sf\<close> with the lowest RTT; the queue of
  every other subflow is as before.
\<close>

theorem Write_fastest_first:
  assumes "distinct (map (\<lambda>sf. getRTT (sfHeap w sf)) (subflows (bc w)))"
    and "\<forall>x \<in> set (subflows (bc w)). hasSpace (sfHeap w x)"
    and "sf \<in> set (subflows (bc w))"
    and "\<forall>x \<in> set (subflows (bc w)). getRTT (sfHeap w sf) \<le> getRTT (sfHeap w x)"
  shows "Write w b = (enqueue (snd (stampFrame w b)) sf (nextFrame w), Returned (int (length b)) None)
       \<and> sendQueue (sfHeap (fst (Write w b)) sf) = sendQueue (sfHeap w sf) @ [nextFrame w]
       \<and> (\<forall>x. x \<noteq> sf \<longrightarrow> sfHeap (fst (Write w b)) x = sfHeap w x)
       \<and> sendFrame.fn (frameHeap (fst (Write w b)) (nextFrame w)) = lastFN (bc w) + 1
       \<and> buf (frameHeap (fst (Write w b)) (nextFrame w)) = b"
proof -
  let ?w1 = "snd (stampFrame w b)"
  from assms(3) have ne: "subflows (bc w) \<noteq> []" by auto
  have hd: "hd (sortedSubflows w) = sf"
    by (rule sortedSubflows_lowest [OF assms(1,3,4)])
  have "sortedSubflows ?w1 = sf # tl (sortedSubflows w)"
    using sortedSubflows_Cons [OF ne] by (simp add: sortedSubflows_stampFrame hd)
  moreover have "hasSpace (sfHeap ?w1 sf)"
    using assms(2,3) by (simp add: stampFrame_sfHeap)
  ultimately have W: "Write w b = (enqueue ?w1 sf (nextFrame w), Returned (int (length b)) None)"
    by (simp add: Write_unfold dispatch_def)
  show ?thesis
    by (simp add: W enqueue_def stampFrame_sfHeap)
      (simp add: stampFrame_def composeFrame_def Let_def)
qed

text \<open>
  Two subflows with empty queues, RTT 50 at address 0 and RTT 10 at address 1: a
  payload of three bytes goes to the subflow at address 1 as frame number 10.
\<close>

theorem Write_fastest_first_witness:
  "subflows (bc twoPaths) = [0, 1]
   \<and> getRTT (sfHeap twoPaths 0) = 50 \<and> getRTT (sfHeap twoPaths 1) = 10
   \<and> hasSpace (sfHeap twoPaths 0) \<and> hasSpace (sfHeap twoPaths 1)
   \<and> snd (Write twoPaths [1, 2, 3]) = Returned 3 None
   \<and> sendQueue (sfHeap (fst (Write twoPaths [1, 2, 3])) 1) = [0]
   \<and> sendQueue (sfHeap (fst (Write twoPaths [1, 2, 3])) 0) = []
   \<and> sendFrame.fn (frameHeap (fst (Write twoPaths [1, 2, 3])) 0) = 10"
proof -
  have h1: "distinct (map (\<lambda>sf. getRTT (sfHeap twoPaths sf)) (subflows (bc twoPaths)))"
    and h2: "\<forall>x \<in> set (subflows (bc twoPaths)). hasSpace (sfHeap twoPaths x)"
    and h3: "1 \<in> set (subflows (bc twoPaths))"
    and h4: "\<forall>x \<in> set (subflows (bc twoPaths)).
               getRTT (sfHeap twoPaths 1) \<le> getRTT (sfHeap twoPaths x)"
    by (simp_all add: twoPaths_simps idleSubflow_def hasSpace_def)
  from Write_fastest_first [OF h1 h2 h3 h4, of "[1, 2, 3]"] show ?thesis
    by (simp add: twoPaths_simps idleSubflow_def hasSpace_def enqueue_def stampFrame_def
        composeFrame_def)
qed

text \<open>
  C3. The connection has at least one subflow, every queue is a buffered channel whose
  buffer is full, and the two calls of \<^verbatim>\<open>sortedSubflows\<close> return any sorted snapshots
  (ties in RTT in any order). Then \<^verbatim>\<open>Write\<close> enqueues nothing in its first loop and
  parks in the blocking send on the first subflow of the second snapshot, a subflow of
  the connection whose RTT is lowest; no queue has changed, and the composed frame holds
  the next frame number and the payload. Scheduled again while that buffer is still
  full, the call stays parked and nothing changes. Scheduled in any state where that
  buffer has space, the call returns the full payload length and no error, and the
  frame is the new last element of that subflow's queue; no other queue, no frame and
  nothing of the connection has changed. \<^verbatim>\<open>Write\<close> with the \<open>sort_key\<close> order is one
  such call.
\<close>

theorem Write_blocking_fallback:
  assumes "subflows (bc w) \<noteq> []"
    and "\<forall>x \<in> set (subflows (bc w)). 0 < sendQueueCap (sfHeap w x) \<and> \<not> hasSpace (sfHeap w x)"
    and "sortedSnapshot w snapshot1"
    and "sortedSnapshot w snapshot2"
  shows "hd snapshot2 \<in> set (subflows (bc w))
       \<and> (\<forall>x \<in> set (subflows (bc w)).
            getRTT (sfHeap w (hd snapshot2)) \<le> getRTT (sfHeap w x))
       \<and> snd (WriteWith w snapshot1 snapshot2 b) =
           Blocked (hd snapshot2) (nextFrame w) (int (length b))
       \<and> sfHeap (fst (WriteWith w snapshot1 snapshot2 b)) = sfHeap w
       \<and> sendFrame.fn (frameHeap (fst (WriteWith w snapshot1 snapshot2 b)) (nextFrame w)) =
           lastFN (bc w) + 1
       \<and> buf (frameHeap (fst (WriteWith w snapshot1 snapshot2 b)) (nextFrame w)) = b
       \<and> (\<forall>w'. 0 < sendQueueCap (sfHeap w' (hd snapshot2))
                \<and> sendQueueCap (sfHeap w' (hd snapshot2))
                    \<le> length (sendQueue (sfHeap w' (hd snapshot2))) \<longrightarrow>
             resume w' (snd (WriteWith w snapshot1 snapshot2 b)) =
               (w', Blocked (hd snapshot2) (nextFrame w) (int (length b))))
       \<and> (\<forall>w'. length (sendQueue (sfHeap w' (hd snapshot2)))
                  < sendQueueCap (sfHeap w' (hd snapshot2)) \<longrightarrow>
             snd (resume w' (snd (WriteWith w snapshot1 snapshot2 b))) =
               Returned (int (length b)) None
             \<and> sendQueue (sfHeap (fst (resume w' (snd (WriteWith w snapshot1 snapshot2 b))))
                  (hd snapshot2)) =
                 sendQueue (sfHeap w' (hd snapshot2)) @ [nextFrame w]
             \<and> (\<forall>x. x \<noteq> hd snapshot2 \<longrightarrow>
                  sfHeap (fst (resume w' (snd (WriteWith w snapshot1 snapshot2 b)))) x =
                    sfHeap w' x)
             \<and> frameHeap (fst (resume w' (snd (WriteWith w snapshot1 snapshot2 b)))) =
                 frameHeap w'
             \<and> bc (fst (resume w' (snd (WriteWith w snapshot1 snapshot2 b)))) = bc w')
       \<and> sortedSnapshot w (sortedSubflows w)
       \<and> Write w b = WriteWith w (sortedSubflows w) (sortedSubflows w) b"
proof -
  let ?w1 = "snd (stampFrame w b)"
  let ?sf = "hd snapshot2"
  note h = sortedSnapshot_hd [OF assms(4,1)]
  have "\<forall>x \<in> set snapshot1. \<not> hasSpace (sfHeap ?w1 x)"
    using assms(2) by (simp add: sortedSnapshot_set [OF assms(3)] stampFrame_sfHeap)
  then have "trySend ?w1 snapshot1 (nextFrame w) = None"
    by (rule trySend_full)
  moreover have "snapshot2 = ?sf # tl snapshot2"
    by (rule sortedSnapshot_Cons [OF assms(4,1)])
  then have "(case snapshot2 of [] \<Rightarrow> x | sf # _ \<Rightarrow> f sf) = f ?sf" for x :: "world \<times> write_result" and f
    by (metis list.simps(5))
  moreover have "\<not> hasSpace (sfHeap ?w1 ?sf)"
    using assms(2) h(1) by (simp add: stampFrame_sfHeap)
  ultimately have W: "WriteWith w snapshot1 snapshot2 b =
      (?w1, Blocked ?sf (nextFrame w) (int (length b)))"
    by (simp add: WriteWith_unfold dispatchWith_def blockingSend_def)
  show ?thesis
    using h by (simp add: W blockingSend_def hasSpace_def enqueue_def stampFrame_sfHeap
        stampFrame_frame sortedSnapshot_sortedSubflows Write_WriteWith [symmetric])
qed

text \<open>
  Two subflows with full queues of capacity 1, RTT 50 at address 0 and RTT 10 at address
  1, and the snapshot 1, 0. The call parks on the subflow at address 1 with its frame at
  address 0, and stays parked while nothing has changed. After the subflow at address 1
  has emptied its queue the call returns 3 and no error, the queue of that subflow holds
  the frame, and the frame carries number 10 and the three bytes.
\<close>

theorem Write_blocking_fallback_witness:
  "subflows (bc bothFull) = [0, 1]
   \<and> sendQueueCap (sfHeap bothFull 0) = 1 \<and> sendQueue (sfHeap bothFull 0) = [5]
   \<and> sendQueueCap (sfHeap bothFull 1) = 1 \<and> sendQueue (sfHeap bothFull 1) = [6]
   \<and> getRTT (sfHeap bothFull 0) = 50 \<and> getRTT (sfHeap bothFull 1) = 10
   \<and> sortedSnapshot bothFull [1, 0]
   \<and> Write bothFull [1, 2, 3] = WriteWith bothFull [1, 0] [1, 0] [1, 2, 3]
   \<and> snd (Write bothFull [1, 2, 3]) = Blocked 1 0 3
   \<and> sendQueue (sfHeap (fst (Write bothFull [1, 2, 3])) 1) = [6]
   \<and> snd (resume (fst (Write bothFull [1, 2, 3])) (Blocked 1 0 3)) = Blocked 1 0 3
   \<and> snd (resume (drain (fst (Write bothFull [1, 2, 3])) 1) (Blocked 1 0 3)) = Returned 3 None
   \<and> sendQueue (sfHeap (fst (resume (drain (fst (Write bothFull [1, 2, 3])) 1) (Blocked 1 0 3))) 1)
       = [0]
   \<and> sendFrame.fn
       (frameHeap (fst (resume (drain (fst (Write bothFull [1, 2, 3])) 1) (Blocked 1 0 3))) 0) = 10
   \<and> buf (frameHeap (fst (resume (drain (fst (Write bothFull [1, 2, 3])) 1) (Blocked 1 0 3))) 0)
       = [1, 2, 3]"
proof -
  have srt: "sortedSubflows bothFull = [Suc 0, 0]"
    by (simp add: sortedSubflows_def bothFull_simps)
  have h1: "subflows (bc bothFull) \<noteq> []"
    and h2: "\<forall>x \<in> set (subflows (bc bothFull)).
               0 < sendQueueCap (sfHeap bothFull x) \<and> \<not> hasSpace (sfHeap bothFull x)"
    and h3: "sortedSnapshot bothFull [1, 0]"
    by (simp_all add: bothFull_simps idleSubflow_def hasSpace_def sortedSnapshot_def)
  from Write_blocking_fallback [OF h1 h2 h3 h3, of "[1, 2, 3]"] show ?thesis
    using h3 by (simp add: Write_WriteWith srt blockingSend_def hasSpace_def enqueue_def
        drain_def bothFull_simps idleSubflow_def)
qed

section \<open>Closing\<close>

text \<open>
  C4. For every call \<^verbatim>\<open>remove(s)\<close> that leaves the subflow set empty, the connection is
  closed afterwards: the closed flag is 1 and the receive queue has been closed. A
  \<^verbatim>\<open>Write\<close> made then returns 0 bytes written and the closed-connection error, and so does
  every one of any sequence of calls made then, and every call made in a later state in
  which the set is empty.
\<close>

theorem remove_last_closes:
  assumes "subflows (bc (remove w s)) = []"
  shows "closed (bc (remove w s)) = 1
       \<and> recvQueueClosed (bc (remove w s))
       \<and> Write (remove w s) b = (snd (stampFrame (remove w s) b), Returned 0 (Some ErrClosed))
       \<and> map snd (fst (Writes (remove w s) bs)) =
           replicate (length bs) (Returned 0 (Some ErrClosed))
       \<and> (\<forall>w'. subflows (bc w') = [] \<longrightarrow>
             Write w' b = (snd (stampFrame w' b), Returned 0 (Some ErrClosed)))"
proof -
  from assms have "filter (\<lambda>sf. sf \<noteq> s) (subflows (bc w)) = []"
    by (simp add: remove_def Let_def close_def split: if_splits)
  then have "closed (bc (remove w s)) = 1" "recvQueueClosed (bc (remove w s))"
    by (simp_all add: remove_def Let_def close_def)
  then show ?thesis
    using assms by (simp add: Writes_Nil Write_Nil)
qed

text \<open>
  A connection with the one subflow at address 0, open; after \<^verbatim>\<open>remove\<close> of that
  subflow it is closed and writes fail.
\<close>

theorem remove_last_closes_witness:
  "subflows (bc (add (worldOf (newMPConn 10 7)) 0)) = [0]
   \<and> closed (bc (add (worldOf (newMPConn 10 7)) 0)) = 0
   \<and> subflows (bc (remove (add (worldOf (newMPConn 10 7)) 0) 0)) = []
   \<and> closed (bc (remove (add (worldOf (newMPConn 10 7)) 0) 0)) = 1
   \<and> recvQueueClosed (bc (remove (add (worldOf (newMPConn 10 7)) 0) 0))
   \<and> snd (Write (remove (add (worldOf (newMPConn 10 7)) 0) 0) [1, 2, 3]) =
       Returned 0 (Some ErrClosed)
   \<and> map snd (fst (Writes (remove (add (worldOf (newMPConn 10 7)) 0) 0) [[1], [2]])) =
       [Returned 0 (Some ErrClosed), Returned 0 (Some ErrClosed)]"
proof -
  have h: "subflows (bc (remove (add (worldOf (newMPConn 10 7)) 0) 0)) = []"
    by (simp add: remove_def close_def example_defs)
  from remove_last_closes [OF h, of "[1, 2, 3]" "[[1], [2]]"] show ?thesis
    using h by (simp add: example_defs)
qed

text \<open>
  C5. A \<^verbatim>\<open>Write\<close> made while the subflow set is empty returns 0 bytes written and the
  error \<^verbatim>\<open>ErrClosed\<close> without parking; the state it leaves is the one after composing the
  frame, so no queue of any subflow has changed and the payload is in none of them.
\<close>

theorem Write_no_subflows:
  assumes "subflows (bc w) = []"
  shows "Write w b = (snd (stampFrame w b), Returned 0 (Some ErrClosed))
       \<and> sfHeap (fst (Write w b)) = sfHeap w
       \<and> subflows (bc (fst (Write w b))) = []"
  using assms by (simp add: Write_Nil stampFrame_sfHeap stampFrame_bc)

text \<open>A freshly created connection has no subflow.\<close>

theorem Write_no_subflows_witness:
  "subflows (bc (worldOf (newMPConn 10 7))) = []
   \<and> snd (Write (worldOf (newMPConn 10 7)) [1, 2, 3]) = Returned 0 (Some ErrClosed)
   \<and> sfHeap (fst (Write (worldOf (newMPConn 10 7)) [1, 2, 3])) = sfHeap (worldOf (newMPConn 10 7))"
proof -
  have h: "subflows (bc (worldOf (newMPConn 10 7))) = []"
    by (simp add: example_defs)
  from Write_no_subflows [OF h, of "[1, 2, 3]"] show ?thesis
    using h by (simp add: stampFrame_sfHeap)
qed

section \<open>Retransmission\<close>

text \<open>
  C9. When the \<^verbatim>\<open>beingRetransmitted\<close> flag of a frame is 1 at the call of
  \<^verbatim>\<open>retransmit\<close>, the call returns at once and leaves the whole state as it was: no queue
  of any subflow, no counter of any frame and nothing of the connection has changed,
  whatever the runtime would have picked in a \<^verbatim>\<open>select\<close>.
\<close>

theorem retransmit_guard:
  assumes "beingRetransmitted (frameHeap w frame) = 1"
  shows "retransmit pick w frame = (w, Done)"
  using assms by (simp add: retransmit_def)

text \<open>The first frame of a connection, with its flag set by a retransmission under way.\<close>

theorem retransmit_guard_witness:
  "beingRetransmitted (frameHeap (setBeingRetransmitted firstPending 0 1) 0) = 1
   \<and> retransmit (\<lambda>i sf. False) (setBeingRetransmitted firstPending 0 1) 0 =
       (setBeingRetransmitted firstPending 0 1, Done)"
proof -
  have h: "beingRetransmitted (frameHeap (setBeingRetransmitted firstPending 0 1) 0) = 1"
    by (simp add: setBeingRetransmitted_def)
  from retransmit_guard [OF h] show ?thesis
    using h by simp
qed

text \<open>
  C10. \<^verbatim>\<open>isPendingAck(fn)\<close> is false for every \<^verbatim>\<open>fn\<close> at or below \<^verbatim>\<open>minFrameNumber\<close>,
  in any state and also when the pending map holds an entry under \<^verbatim>\<open>fn\<close>; this
  includes \<^verbatim>\<open>minFrameNumber\<close> itself, which is the frame number that \<^verbatim>\<open>Write\<close> stamps
  on the first frame of a new connection.
\<close>

theorem isPendingAck_sentinel:
  assumes "n \<le> m"
  shows "\<not> isPendingAck m w n
       \<and> \<not> isPendingAck m (w\<lparr>bc := (bc w)\<lparr>pendingAckMap := (pendingAckMap (bc w))(n \<mapsto> e)\<rparr>\<rparr>) n
       \<and> \<not> isPendingAck m (w\<lparr>bc := (bc w)\<lparr>pendingAckMap := (pendingAckMap (bc w))(m \<mapsto> e)\<rparr>\<rparr>) m
       \<and> fst (hd (fst (Writes (foldl add (v\<lparr>bc := newMPConn m c\<rparr>) sfs) (b # bs)))) = m"
proof -
  have "lastFN (bc (foldl add (v\<lparr>bc := newMPConn m c\<rparr>) sfs)) = m - 1"
    by (simp add: add_lastFN newMPConn_def)
  then show ?thesis
    using assms by (auto simp add: isPendingAck_def first_stamp simp del: foldl.simps)
qed

text \<open>
  With \<^verbatim>\<open>minFrameNumber\<close> = 10: the first frame written is number 10, its entry is in the
  pending map, and it is not judged pending.
\<close>

theorem isPendingAck_sentinel_witness:
  "(10 :: uint64) \<le> 10
   \<and> fst (hd (fst (Writes (add (worldOf (newMPConn 10 7)) 0) [[1, 2, 3]]))) = 10
   \<and> pendingAckMap (bc firstPending) 10 = Some (pendingOf 10 0)
   \<and> \<not> isPendingAck 10 firstPending 10"
proof -
  have h: "(10 :: uint64) \<le> 10"
    by simp
  from isPendingAck_sentinel
    [OF h, where w = firstPending and v = "worldOf (newMPConn 10 7)" and c = 7 and sfs = "[0]"
       and b = "[1, 2, 3]" and bs = "[]" and e = "pendingOf 10 0"]
  show ?thesis
    by (simp add: firstPending_simps worldOf_def)
qed

text \<open>
  C7, for the entries above the sentinel. In a pending map that holds every entry under
  its own frame number, and with nothing else changing the map during the sweep: every
  entry collected as overdue whose frame number is greater than \<^verbatim>\<open>minFrameNumber\<close> is
  judged pending by \<^verbatim>\<open>isPendingAck\<close> at the recheck, the sweep does not take the
  release-and-delete branch for it, and the sweep leaves every map entry under a key
  greater than \<^verbatim>\<open>minFrameNumber\<close> as it was. When every key the sweep ranges over is
  greater than \<^verbatim>\<open>minFrameNumber\<close>, the sweep takes the release-and-delete branch for no
  entry and changes nothing in the state: no buffer is released and no entry deleted.
\<close>

theorem sweep_keeps_pending:
  assumes "\<forall>k e. pendingAckMap (bc w) k = Some e \<longrightarrow> pendingAck.fn e = k"
  shows "(\<forall>e \<in> set (RetransmitFrames w clock order).
            m < pendingAck.fn e \<longrightarrow> isPendingAck m w (pendingAck.fn e))
       \<and> (\<forall>a \<in> set (fst (sweep m w clock order)).
            m < pendingAck.fn (entryOf a) \<longrightarrow> \<not> isReleaseDelete a)
       \<and> (\<forall>k. m < k \<longrightarrow>
            pendingAckMap (bc (snd (sweep m w clock order))) k = pendingAckMap (bc w) k)
       \<and> ((\<forall>k \<in> set order. m < k) \<longrightarrow>
            snd (sweep m w clock order) = w
            \<and> (\<forall>a \<in> set (fst (sweep m w clock order)). \<not> isReleaseDelete a))"
proof -
  have stored: "pendingAckMap (bc w) (pendingAck.fn e) = Some e \<and> pendingAck.fn e \<in> set order"
    if "e \<in> set (RetransmitFrames w clock order)" for e
    using that assms by (auto simp: RetransmitFrames_def set_collect)
  then have pend: "\<forall>e \<in> set (RetransmitFrames w clock order).
      m < pendingAck.fn e \<longrightarrow> isPendingAck m w (pendingAck.fn e)"
    by (simp add: isPendingAck_def)
  from stored have "\<forall>e \<in> set (RetransmitFrames w clock order).
      m < pendingAck.fn e \<longrightarrow> pendingAckMap (bc w) (pendingAck.fn e) \<noteq> None"
    by simp
  note keep = processFrames_pending [OF this]
  have all: "snd (sweep m w clock order) = w
      \<and> (\<forall>a \<in> set (fst (sweep m w clock order)). \<not> isReleaseDelete a)"
    if above: "\<forall>k \<in> set order. m < k"
  proof -
    from above stored pend
    have ip: "\<forall>e \<in> set (RetransmitFrames w clock order). isPendingAck m w (pendingAck.fn e)"
      by blast
    then have "snd (sweep m w clock order) = w"
      by (simp add: sweep_def processFrames_unchanged)
    moreover have "m < pendingAck.fn (entryOf a)"
      if "a \<in> set (fst (sweep m w clock order))" for a
    proof -
      from that have "entryOf a \<in> set (map entryOf (fst (sweep m w clock order)))" by simp
      then have "entryOf a \<in> set (RetransmitFrames w clock order)"
        by (simp only: sweep_def processFrames_entries)
      with stored above show ?thesis by blast
    qed
    ultimately show ?thesis
      using keep by (simp add: sweep_def)
  qed
  from pend keep all show ?thesis
    by (simp add: sweep_def)
qed

text \<open>
  With \<^verbatim>\<open>minFrameNumber\<close> = 10 and overdue entries under 12 and 11: the sweep starts a
  retransmission for 11 and for 12 and leaves the state as it was.
\<close>

theorem sweep_keeps_pending_witness:
  "fst (sweep 10 (pendingWorld 10 [12, 11]) (\<lambda>_. 1000) [12, 11]) =
     [GoRetransmit (pendingOf 11 11), GoRetransmit (pendingOf 12 12)]
   \<and> snd (sweep 10 (pendingWorld 10 [12, 11]) (\<lambda>_. 1000) [12, 11]) = pendingWorld 10 [12, 11]"
proof -
  have wf: "\<forall>k e. pendingAckMap (bc (pendingWorld 10 [12, 11])) k = Some e \<longrightarrow> pendingAck.fn e = k"
    by (simp add: pendingWorld_simps pendingOf_def)
  have ks: "\<forall>k \<in> set [12, 11 :: uint64]. 10 < k"
    by simp
  from sweep_keeps_pending [OF wf, of "\<lambda>_. 1000" "[12, 11]" 10] ks
  have "snd (sweep 10 (pendingWorld 10 [12, 11]) (\<lambda>_. 1000) [12, 11]) = pendingWorld 10 [12, 11]"
    by blast
  moreover have "fst (sweep 10 (pendingWorld 10 [12, 11]) (\<lambda>_. 1000) [12, 11]) =
     [GoRetransmit (pendingOf 11 11), GoRetransmit (pendingOf 12 12)]"
    by (simp add: sweep_def RetransmitFrames_def pendingWorld_simps overdue_def pendingOf_def
      idleSubflow_def blankFrame_def processFrame_def isPendingAck_def)
  ultimately show ?thesis by simp
qed

text \<open>
  C7 as stated fails for the first frame of a connection. With \<^verbatim>\<open>minFrameNumber\<close> = 10
  the first \<^verbatim>\<open>Write\<close> stamps 10; its entry is in the pending map under 10, nothing else
  touches the map, and at clock 1000 it is overdue (sent at 0, timeout 100). The recheck
  \<^verbatim>\<open>isPendingAck(10)\<close> is false, so the sweep takes the release-and-delete branch: the
  frame is released and the entry is gone.
\<close>

theorem sweep_releases_first_frame:
  "pendingAckMap (bc firstPending) 10 = Some (pendingOf 10 0)
   \<and> sendFrame.fn (frameHeap firstPending 0) = 10
   \<and> \<not> released (frameHeap firstPending 0)
   \<and> fst (sweep 10 firstPending (\<lambda>_. 1000) [10]) = [ReleaseDelete (pendingOf 10 0)]
   \<and> released (frameHeap (snd (sweep 10 firstPending (\<lambda>_. 1000) [10])) 0)
   \<and> pendingAckMap (bc (snd (sweep 10 firstPending (\<lambda>_. 1000) [10]))) 10 = None"
  by (simp add: sweep_def RetransmitFrames_def firstPending_simps overdue_def pendingOf_def
      idleSubflow_def processFrame_def isPendingAck_def release_def deletePending_def)

text \<open>
  C8. On a tick, when the runtime ranges over the keys of the pending map (each key
  once, in any order), the entries collected are exactly the entries of the map whose
  elapsed time since \<^verbatim>\<open>sentAt\<close> exceeds the current retransmission timeout of their
  outbound subflow, one for each such key; after the sort they are in ascending order of
  frame number, and the sweep processes them one by one in that order.
\<close>

theorem sweep_collects_overdue_in_order:
  assumes "distinct order" and "set order = dom (pendingAckMap (bc w))"
  shows "set (RetransmitFrames w clock order) =
           {e. \<exists>k. pendingAckMap (bc w) k = Some e \<and> overdue w (clock k) e}
       \<and> length (RetransmitFrames w clock order) =
           card {k. \<exists>e. pendingAckMap (bc w) k = Some e \<and> overdue w (clock k) e}
       \<and> sorted (map pendingAck.fn (RetransmitFrames w clock order))
       \<and> map entryOf (fst (sweep m w clock order)) = RetransmitFrames w clock order"
proof -
  let ?od = "\<lambda>k. \<exists>e. pendingAckMap (bc w) k = Some e \<and> overdue w (clock k) e"
  have "set (RetransmitFrames w clock order) =
      {e. \<exists>k. pendingAckMap (bc w) k = Some e \<and> overdue w (clock k) e}"
    using assms(2) by (auto simp: RetransmitFrames_def set_collect)
  moreover have "length (RetransmitFrames w clock order) = card {k. ?od k}"
  proof -
    have "{k. ?od k} = set (filter ?od order)"
      using assms(2) by auto
    moreover have "card (set (filter ?od order)) = length (filter ?od order)"
      using assms(1) by (intro distinct_card) simp
    ultimately show ?thesis
      by (simp only: RetransmitFrames_def length_collect length_sort)
  qed
  moreover have "sorted (map pendingAck.fn (RetransmitFrames w clock order))"
    by (simp add: RetransmitFrames_def)
  ultimately show ?thesis
    by (simp add: sweep_def processFrames_entries)
qed

text \<open>
  Pending frames 3, 7 and 5, all overdue, ranged over in the order 3, 7, 5: they are
  processed in the order 3, 5, 7, and with a sentinel below 3 (here 1) each of them is
  handed to \<^verbatim>\<open>retransmit\<close>.
\<close>

theorem sweep_collects_overdue_in_order_witness:
  "distinct [3, 7, 5 :: uint64]
   \<and> dom (pendingAckMap (bc (pendingWorld 1 [3, 7, 5]))) = {3, 7, 5}
   \<and> map pendingAck.fn (RetransmitFrames (pendingWorld 1 [3, 7, 5]) (\<lambda>_. 1000) [3, 7, 5]) =
       [3, 5, 7]
   \<and> fst (sweep 1 (pendingWorld 1 [3, 7, 5]) (\<lambda>_. 1000) [3, 7, 5]) =
       [GoRetransmit (pendingOf 3 3), GoRetransmit (pendingOf 5 5), GoRetransmit (pendingOf 7 7)]"
proof -
  have h1: "distinct [3, 7, 5 :: uint64]"
    by simp
  have d: "dom (pendingAckMap (bc (pendingWorld 1 [3, 7, 5]))) = {3, 7, 5}"
    by (auto simp: pendingWorld_simps split: if_splits)
  then have h2: "set [3, 7, 5] = dom (pendingAckMap (bc (pendingWorld 1 [3, 7, 5])))"
    by simp
  have r: "RetransmitFrames (pendingWorld 1 [3, 7, 5]) (\<lambda>_. 1000) [3, 7, 5] =
      [pendingOf 3 3, pendingOf 5 5, pendingOf 7 7]"
    by (simp add: RetransmitFrames_def pendingWorld_simps overdue_def pendingOf_def
      idleSubflow_def)
  have s: "fst (sweep 1 (pendingWorld 1 [3, 7, 5]) (\<lambda>_. 1000) [3, 7, 5]) =
       [GoRetransmit (pendingOf 3 3), GoRetransmit (pendingOf 5 5), GoRetransmit (pendingOf 7 7)]"
    by (simp add: sweep_def r processFrame_def isPendingAck_def pendingWorld_simps
      blankFrame_def pendingOf_def)
  from sweep_collects_overdue_in_order [OF h1 h2, of "\<lambda>_. 1000" 1] show ?thesis
    using h1 d by (simp add: r s pendingOf_def)
qed

end
